theory Spec2Isabelle
  imports Main "HOL-Library.Word" "HOL-Library.Sublist"
begin

section \<open>Data of the compose search\<close>

text \<open>
  The C++ \<^verbatim>\<open>int\<close> of the source is a 32-bit two's complement integer: a \<open>32 word\<close>, read
  with \<open>sint\<close> and compared with \<open>\<le>s\<close> and \<open><s\<close>. A \<^verbatim>\<open>QString\<close> is a \<open>string\<close>, compared by
  value. A \<^verbatim>\<open>PeerData*\<close> is the identity of a peer, \<open>None\<close> being \<^verbatim>\<open>nullptr\<close>.
\<close>

type_synonym cint = "32 word"

type_synonym PeerData = nat

datatype FullMsgId = FullMsgId (peer: nat) (msg: nat)

text \<open>\<^verbatim>\<open>struct SearchRequest { QString query; PeerData *from = nullptr; }\<close>\<close>

record SearchRequest =
  query :: string
  from_peer :: "PeerData option"

text \<open>
  \<^verbatim>\<open>Api::FoundMessages\<close>: a page of a search, or the accumulated pages, with the three
  fields the source reads and writes. The field \<^verbatim>\<open>total\<close> is named \<open>total_found\<close> here.
\<close>

record FoundMessages =
  total_found :: cint
  messages :: "FullMsgId list"
  nextToken :: string

text \<open>
  Modelled from the spec: the declaration of \<^verbatim>\<open>Api::FoundMessages\<close> (api_messages_search.h)
  is not among the sources. A value-initialised \<^verbatim>\<open>FoundMessages\<close> (\<^verbatim>\<open>= {}\<close>) has no messages,
  the empty token and the total \<open>-1\<close>, the sentinel of an unknown total.
\<close>

definition FoundMessages_default :: FoundMessages where
  "FoundMessages_default = \<lparr>total_found = - 1, messages = [], nextToken = []\<rparr>"

section \<open>ApiSearch: the merger of the primary and the migrated search\<close>

text \<open>
  \<open>migratedSearch\<close> says whether the optional \<^verbatim>\<open>_migratedSearch\<close> holds a value
  (the history has a \<^verbatim>\<open>migrateFrom()\<close>).
\<close>

record ApiSearch =
  migratedSearch :: bool
  migratedFirstFound :: FoundMessages
  concatedFound :: FoundMessages
  waitingForTotal :: bool
  isFull :: bool

text \<open>
  What a member function of \<^verbatim>\<open>ApiSearch\<close> sends out: an event fired on one of its two
  streams, or a call of one of the two \<^verbatim>\<open>Api::MessagesSearch\<close> objects. The calls go to the
  network and their pages come back as later events.
\<close>

datatype ApiCall = SearchMessages string "PeerData option" | SearchMore

datatype ApiOut = NewFounds | NextFounds | ApiSearchCall ApiCall | MigratedSearchCall ApiCall

definition ApiSearch_init :: "bool \<Rightarrow> ApiSearch" where
  "ApiSearch_init hasMigrateFrom =
     \<lparr>migratedSearch = hasMigrateFrom,
      migratedFirstFound = FoundMessages_default,
      concatedFound = FoundMessages_default,
      waitingForTotal = False,
      isFull = False\<rparr>"

text \<open>\<^verbatim>\<open>_concatedFound.messages.push_back(message)\<close>\<close>

definition push_back :: "FullMsgId \<Rightarrow> ApiSearch \<Rightarrow> ApiSearch" where
  "push_back message s =
     s\<lparr>concatedFound := (concatedFound s)\<lparr>messages := messages (concatedFound s) @ [message]\<rparr>\<rparr>"

text \<open>\<^verbatim>\<open>ApiSearch::addFound\<close>: the loop over \<^verbatim>\<open>data.messages\<close>.\<close>

definition addFound :: "FoundMessages \<Rightarrow> ApiSearch \<Rightarrow> ApiSearch" where
  "addFound data s = fold push_back (messages data) s"

text \<open>The lambda \<^verbatim>\<open>checkWaitingForTotal\<close> of the constructor.\<close>

definition checkWaitingForTotal :: "ApiSearch \<Rightarrow> ApiSearch \<times> ApiOut list" where
  "checkWaitingForTotal s =
     (if waitingForTotal s then
        (if 0 \<le>s total_found (concatedFound s) \<and> 0 \<le>s total_found (migratedFirstFound s) then
           (s\<lparr>waitingForTotal := False,
              concatedFound := (concatedFound s)\<lparr>total_found :=
                total_found (concatedFound s) + total_found (migratedFirstFound s)\<rparr>\<rparr>,
            [NewFounds])
         else (s, []))
      else (s, [NewFounds]))"

text \<open>
  The lambda \<^verbatim>\<open>checkFull\<close>; \<^verbatim>\<open>int(_concatedFound.messages.size())\<close> is the length
  converted to 32 bits.
\<close>

definition checkFull :: "FoundMessages \<Rightarrow> ApiSearch \<Rightarrow> ApiSearch" where
  "checkFull data s =
     (if total_found data = of_nat (length (messages (concatedFound s))) then
        addFound (migratedFirstFound s) (s\<lparr>isFull := True\<rparr>)
      else s)"

text \<open>The handler of \<^verbatim>\<open>_apiSearch.messagesFounds()\<close>: a page of the primary search.\<close>

definition apiSearch_messagesFounds :: "FoundMessages \<Rightarrow> ApiSearch \<Rightarrow> ApiSearch \<times> ApiOut list" where
  "apiSearch_messagesFounds data s =
     (if nextToken data = nextToken (concatedFound s) then
        (checkFull data (addFound data s), [NextFounds])
      else
        checkWaitingForTotal (checkFull data (s\<lparr>concatedFound := data\<rparr>)))"

text \<open>
  The handler of \<^verbatim>\<open>_migratedSearch->messagesFounds()\<close>: a page of the migrated search.
  The constructor subscribes it only when \<^verbatim>\<open>_migratedSearch\<close> holds a value.
\<close>

definition migratedSearch_messagesFounds :: "FoundMessages \<Rightarrow> ApiSearch \<Rightarrow> ApiSearch \<times> ApiOut list" where
  "migratedSearch_messagesFounds data s =
     (if \<not> migratedSearch s then (s, [])
      else
        (let s1 = (if isFull s then addFound data s else s) in
         if nextToken data = nextToken (migratedFirstFound s1) then (s1, [NextFounds])
         else checkWaitingForTotal (s1\<lparr>migratedFirstFound := data\<rparr>)))"

text \<open>\<^verbatim>\<open>ApiSearch::clear\<close>\<close>

definition clear :: "ApiSearch \<Rightarrow> ApiSearch" where
  "clear s = s\<lparr>concatedFound := FoundMessages_default, migratedFirstFound := FoundMessages_default\<rparr>"

text \<open>\<^verbatim>\<open>ApiSearch::search\<close>\<close>

definition search :: "SearchRequest \<Rightarrow> ApiSearch \<Rightarrow> ApiSearch \<times> ApiOut list" where
  "search req s =
     (if migratedSearch s then
        (s\<lparr>waitingForTotal := True\<rparr>,
         [MigratedSearchCall (SearchMessages (query req) (from_peer req)),
          ApiSearchCall (SearchMessages (query req) (from_peer req))])
      else (s, [ApiSearchCall (SearchMessages (query req) (from_peer req))]))"

text \<open>\<^verbatim>\<open>ApiSearch::searchMore\<close>\<close>

definition searchMore :: "ApiSearch \<Rightarrow> ApiSearch \<times> ApiOut list" where
  "searchMore s =
     (if migratedSearch s \<and> isFull s then (s, [MigratedSearchCall SearchMore])
      else (s, [ApiSearchCall SearchMore]))"

section \<open>BottomBar: the navigator\<close>

text \<open>
  What \<^verbatim>\<open>updateText\<close> puts into \<^verbatim>\<open>_counter\<close>: nothing, "n of amount", or "none".
\<close>

datatype CounterText = TextEmpty | TextNOfAmount cint cint | TextNone

text \<open>
  \<^verbatim>\<open>_total\<close> is named \<open>total_bar\<close>. The three flags are the attribute
  \<^verbatim>\<open>Qt::WA_TransparentForMouseEvents\<close> of \<^verbatim>\<open>_next\<close>, \<^verbatim>\<open>_previous\<close> and \<^verbatim>\<open>_showList\<close>:
  a button that has it receives no click.
\<close>

record BottomBar =
  total_bar :: cint
  current :: cint
  nextDisabled :: bool
  prevDisabled :: bool
  showListDisabled :: bool
  counter :: CounterText

text \<open>\<^verbatim>\<open>BottomBar::updateText\<close>\<close>

definition updateText :: "cint \<Rightarrow> BottomBar \<Rightarrow> BottomBar" where
  "updateText c b =
     (if total_bar b <s 0 then b\<lparr>counter := TextEmpty\<rparr>
      else if total_bar b \<noteq> 0 then b\<lparr>counter := TextNOfAmount c (total_bar b)\<rparr>
      else b\<lparr>counter := TextNone\<rparr>)"

text \<open>The subscriber of \<^verbatim>\<open>_current.value()\<close> in the constructor.\<close>

definition current_value :: "cint \<Rightarrow> BottomBar \<Rightarrow> BottomBar" where
  "current_value c b =
     (let nextD = (c \<le>s 0 \<or> total_bar b \<le>s c);
          prevD = (c \<le>s 1)
      in updateText c
           (b\<lparr>nextDisabled := nextD, prevDisabled := prevD, showListDisabled := (nextD \<and> prevD)\<rparr>))"

text \<open>
  The constructor: \<^verbatim>\<open>_total = -1\<close>, \<^verbatim>\<open>_current = 0\<close>, and the subscription to
  \<^verbatim>\<open>_current.value()\<close> runs its handler at once with the value 0.
\<close>

definition BottomBar_init :: BottomBar where
  "BottomBar_init =
     current_value 0
       \<lparr>total_bar = - 1, current = 0, nextDisabled = False, prevDisabled = False,
        showListDisabled = False, counter = TextEmpty\<rparr>"

text \<open>
  \<^verbatim>\<open>rpl::variable\<close>: \<^verbatim>\<open>force_assign\<close> stores the value and fires the change always;
  the assignment operator does so only when the value differs. A change runs the subscriber
  of \<^verbatim>\<open>value()\<close> and sends \<^verbatim>\<open>current - 1\<close> on \<^verbatim>\<open>showItemRequests()\<close>; the second
  component is what was sent there.
\<close>

definition force_assign :: "cint \<Rightarrow> BottomBar \<Rightarrow> BottomBar \<times> cint list" where
  "force_assign c b = (current_value c (b\<lparr>current := c\<rparr>), [c - 1])"

definition assign :: "cint \<Rightarrow> BottomBar \<Rightarrow> BottomBar \<times> cint list" where
  "assign c b = (if c = current b then (b, []) else force_assign c b)"

text \<open>\<^verbatim>\<open>BottomBar::setCurrent\<close> and \<^verbatim>\<open>BottomBar::setTotal\<close>\<close>

definition setCurrent :: "cint \<Rightarrow> BottomBar \<Rightarrow> BottomBar \<times> cint list" where
  "setCurrent c b = force_assign c b"

definition setTotal :: "cint \<Rightarrow> BottomBar \<Rightarrow> BottomBar \<times> cint list" where
  "setTotal t b = setCurrent 1 (b\<lparr>total_bar := t\<rparr>)"

text \<open>
  The handler of the merged clicks, \<^verbatim>\<open>_current = _current.current() + way\<close>, and the two
  buttons: a click reaches the handler only when the button is not disabled.
\<close>

definition way_clicked :: "cint \<Rightarrow> BottomBar \<Rightarrow> BottomBar \<times> cint list" where
  "way_clicked way b = assign (current b + way) b"

definition next_clicked :: "BottomBar \<Rightarrow> BottomBar \<times> cint list" where
  "next_clicked b = (if nextDisabled b then (b, []) else way_clicked 1 b)"

definition previous_clicked :: "BottomBar \<Rightarrow> BottomBar \<times> cint list" where
  "previous_clicked b = (if prevDisabled b then (b, []) else way_clicked (- 1) b)"

datatype Click = Next | Previous

fun click :: "Click \<Rightarrow> BottomBar \<Rightarrow> BottomBar" where
  "click Next b = fst (next_clicked b)"
| "click Previous b = fst (previous_clicked b)"

section \<open>TopBar: the query input\<close>

text \<open>
  \<open>select_query\<close> is what \<^verbatim>\<open>_select->getQuery()\<close> returns, \<open>from_value\<close> is \<^verbatim>\<open>_from\<close>,
  \<open>searchTimer\<close> says whether \<^verbatim>\<open>_searchTimer\<close> is running.
\<close>

record TopBar =
  select_query :: string
  from_value :: "PeerData option"
  searchTimer :: bool
  typedRequests :: "SearchRequest list"

definition TopBar_init :: TopBar where
  "TopBar_init = \<lparr>select_query = [], from_value = None, searchTimer = False, typedRequests = []\<rparr>"

text \<open>
  \<^verbatim>\<open>TopBar::requestSearch\<close>; the second component is what is fired on
  \<^verbatim>\<open>_searchRequests\<close>.
\<close>

definition requestSearch :: "bool \<Rightarrow> TopBar \<Rightarrow> TopBar \<times> SearchRequest list" where
  "requestSearch cache t =
     (let search = \<lparr>query = select_query t, from_peer = from_value t\<rparr>
      in ((if cache then t\<lparr>typedRequests := typedRequests t @ [search]\<rparr> else t), [search]))"

text \<open>
  \<^verbatim>\<open>TopBar::requestSearchDelayed\<close>: the loop over \<^verbatim>\<open>_typedRequests\<close>, and after it
  \<^verbatim>\<open>_searchTimer.callOnce(AutoSearchTimeout)\<close>.
\<close>

fun check_cached :: "SearchRequest list \<Rightarrow> TopBar \<Rightarrow> TopBar \<times> SearchRequest list" where
  "check_cached [] t = (t\<lparr>searchTimer := True\<rparr>, [])"
| "check_cached (r # rs) t =
     (if query r = select_query t \<and> from_peer r = from_value t then requestSearch False t
      else check_cached rs t)"

definition requestSearchDelayed :: "TopBar \<Rightarrow> TopBar \<times> SearchRequest list" where
  "requestSearchDelayed t = check_cached (typedRequests t) t"

text \<open>
  The callbacks: the query changed to \<open>q\<close>, the query was submitted, the timer ran out
  (its callback is \<^verbatim>\<open>requestSearch()\<close>, with \<^verbatim>\<open>cache = true\<close>), the filter chip was removed,
  and \<^verbatim>\<open>TopBar::setFrom\<close>.
\<close>

definition queryChanged :: "string \<Rightarrow> TopBar \<Rightarrow> TopBar \<times> SearchRequest list" where
  "queryChanged q t = requestSearchDelayed (t\<lparr>select_query := q\<rparr>)"

definition submitted :: "TopBar \<Rightarrow> TopBar \<times> SearchRequest list" where
  "submitted t = requestSearch True t"

definition searchTimer_timeout :: "TopBar \<Rightarrow> TopBar \<times> SearchRequest list" where
  "searchTimer_timeout t =
     (if searchTimer t then requestSearch True (t\<lparr>searchTimer := False\<rparr>) else (t, []))"

definition itemRemoved :: "TopBar \<Rightarrow> TopBar \<times> SearchRequest list" where
  "itemRemoved t = requestSearchDelayed (t\<lparr>from_value := None\<rparr>)"

definition setFrom :: "PeerData option \<Rightarrow> TopBar \<Rightarrow> TopBar \<times> SearchRequest list" where
  "setFrom p t = requestSearchDelayed (t\<lparr>from_value := p\<rparr>)"

section \<open>ComposeSearch::Inner: the orchestrator\<close>

text \<open>\<^verbatim>\<open>_pendingJump.data\<close>: \<^verbatim>\<open>struct { QString token; BottomBar::Index index = -1; }\<close>\<close>

record PendingJump =
  token :: string
  index :: cint

definition PendingJump_default :: PendingJump where
  "PendingJump_default = \<lparr>token = [], index = - 1\<rparr>"

text \<open>
  What leaves the orchestrator, in the order it happens: a call of one of the two remote
  searches, a call of \<^verbatim>\<open>goToMessage\<close> (which asks the host to jump when the host knows the
  message), a call of \<^verbatim>\<open>hideList\<close>, a call of \<^verbatim>\<open>_list.controller->addItems\<close> with its two
  arguments, and a \<^verbatim>\<open>_pendingJump.jumps.fire_copy\<close>.
\<close>

datatype Effect =
    Remote ApiOut
  | GoToMessage FullMsgId
  | HideList
  | AddItems "FullMsgId list" bool
  | JumpsFired cint

record Inner =
  apiSearch :: ApiSearch
  bottomBar :: BottomBar
  pendingJump :: PendingJump
  effects :: "Effect list"

definition Inner_init :: "bool \<Rightarrow> Inner" where
  "Inner_init hasMigrateFrom =
     \<lparr>apiSearch = ApiSearch_init hasMigrateFrom, bottomBar = BottomBar_init,
      pendingJump = PendingJump_default, effects = []\<rparr>"

text \<open>
  A member function of \<^verbatim>\<open>_apiSearch\<close> that only calls the remote searches
  (\<^verbatim>\<open>search\<close>, \<^verbatim>\<open>searchMore\<close>): the calls are recorded; the pages they bring arrive as
  later events.
\<close>

definition api_call :: "(ApiSearch \<Rightarrow> ApiSearch \<times> ApiOut list) \<Rightarrow> Inner \<Rightarrow> Inner" where
  "api_call f st =
     (let r = f (apiSearch st)
      in st\<lparr>apiSearch := fst r, effects := effects st @ map Remote (snd r)\<rparr>)"

text \<open>
  The handler of the merged \<^verbatim>\<open>_pendingJump.jumps\<close> and \<^verbatim>\<open>_bottomBar->showItemRequests()\<close>:
  the navigation intent for the index \<open>i\<close>. In the last branch \<open>0 \<le> i < size\<close>, so
  \<^verbatim>\<open>messages[index]\<close> is in range.
\<close>

definition showItem :: "cint \<Rightarrow> Inner \<Rightarrow> Inner" where
  "showItem i st =
     (let apiData = concatedFound (apiSearch st);
          size = (of_nat (length (messages apiData)) :: cint);
          st1 = (if size - 1 \<le>s i \<and> size \<noteq> total_found apiData then api_call searchMore st
                 else st)
      in if size \<le>s i \<or> i <s 0 then
           st1\<lparr>pendingJump := \<lparr>token = nextToken apiData, index = i\<rparr>\<rparr>
         else
           st1\<lparr>pendingJump := PendingJump_default,
               effects := effects st1 @ [GoToMessage (messages apiData ! nat (sint i)), HideList]\<rparr>)"

text \<open>
  A member function of \<^verbatim>\<open>_bottomBar\<close>: each index it sends on \<^verbatim>\<open>showItemRequests()\<close>
  runs the navigation handler before the function returns.
\<close>

definition bar_call :: "(BottomBar \<Rightarrow> BottomBar \<times> cint list) \<Rightarrow> Inner \<Rightarrow> Inner" where
  "bar_call f st =
     (let r = f (bottomBar st)
      in fold showItem (snd r) (st\<lparr>bottomBar := fst r\<rparr>))"

text \<open>
  \<^verbatim>\<open>_pendingJump.jumps.fire_copy(index)\<close>: the stream is filtered by \<^verbatim>\<open>_1 >= 0\<close> before
  the navigation handler.
\<close>

definition jumps_fire :: "cint \<Rightarrow> Inner \<Rightarrow> Inner" where
  "jumps_fire i st =
     (let st0 = st\<lparr>effects := effects st @ [JumpsFired i]\<rparr>
      in if 0 \<le>s i then showItem i st0 else st0)"

text \<open>The handler of \<^verbatim>\<open>_apiSearch.newFounds()\<close>.\<close>

definition newFounds_handler :: "Inner \<Rightarrow> Inner" where
  "newFounds_handler st =
     (let apiData = concatedFound (apiSearch st);
          st1 = bar_call (setTotal (total_found apiData)) st
      in st1\<lparr>effects := effects st1 @ [AddItems (messages apiData) True]\<rparr>)"

text \<open>The handler of \<^verbatim>\<open>_apiSearch.nextFounds()\<close>.\<close>

definition nextFounds_handler :: "Inner \<Rightarrow> Inner" where
  "nextFounds_handler st =
     (let st1 = (if token (pendingJump st) = nextToken (concatedFound (apiSearch st)) then
                   jumps_fire (index (pendingJump st)) st
                 else st)
      in st1\<lparr>effects := effects st1 @ [AddItems (messages (concatedFound (apiSearch st1))) False]\<rparr>)"

text \<open>
  A page handler of \<^verbatim>\<open>_apiSearch\<close>: every event it fires is the last statement of its
  branch, so the subscribed handler runs on the state the page handler leaves.
\<close>

fun api_out :: "ApiOut \<Rightarrow> Inner \<Rightarrow> Inner" where
  "api_out NewFounds st = newFounds_handler st"
| "api_out NextFounds st = nextFounds_handler st"
| "api_out c st = st\<lparr>effects := effects st @ [Remote c]\<rparr>"

definition api_page :: "(ApiSearch \<Rightarrow> ApiSearch \<times> ApiOut list) \<Rightarrow> Inner \<Rightarrow> Inner" where
  "api_page f st =
     (let r = f (apiSearch st)
      in fold api_out (snd r) (st\<lparr>apiSearch := fst r\<rparr>))"

text \<open>The handler of \<^verbatim>\<open>_topBar->searchRequests()\<close>.\<close>

definition searchRequests_handler :: "SearchRequest \<Rightarrow> Inner \<Rightarrow> Inner" where
  "searchRequests_handler req st =
     (if query req = [] \<and> from_peer req = None then st
      else api_call (search req) (st\<lparr>apiSearch := clear (apiSearch st)\<rparr>))"

text \<open>\<^verbatim>\<open>ranges::find\<close> and \<^verbatim>\<open>std::distance\<close>: the position of the first occurrence.\<close>

fun find_distance :: "FullMsgId \<Rightarrow> FullMsgId list \<Rightarrow> nat option" where
  "find_distance x [] = None"
| "find_distance x (y # ys) =
     (if y = x then Some 0 else map_option Suc (find_distance x ys))"

text \<open>The handler of \<^verbatim>\<open>_list.controller->showItemRequests()\<close>.\<close>

definition list_showItemRequests_handler :: "FullMsgId \<Rightarrow> Inner \<Rightarrow> Inner" where
  "list_showItemRequests_handler x st =
     (case find_distance x (messages (concatedFound (apiSearch st))) of
        None \<Rightarrow> st
      | Some d \<Rightarrow> bar_call (setCurrent (of_nat d + 1)) st)"

text \<open>The handler of \<^verbatim>\<open>_list.controller->searchMoreRequests()\<close>.\<close>

definition list_searchMoreRequests_handler :: "Inner \<Rightarrow> Inner" where
  "list_searchMoreRequests_handler st =
     (let apiData = concatedFound (apiSearch st)
      in if (of_nat (length (messages apiData)) :: cint) \<noteq> total_found apiData then
           api_call searchMore st
         else st)"

text \<open>
  The events the orchestrator reacts to, one at a time: a request of the top bar, a page
  of the primary or of the migrated search, a click on a step button, an item or a
  request for more from the list. The list sends an item when a row is clicked, and
  \<^verbatim>\<open>addItems\<close> sends the empty item as its last statement when the list has no row.
  Every handler has returned before the next event is handled.
\<close>

datatype Event =
    SearchRequests SearchRequest
  | ApiFound FoundMessages
  | MigratedFound FoundMessages
  | Clicked Click
  | ListShowItem FullMsgId
  | ListSearchMore

fun step :: "Event \<Rightarrow> Inner \<Rightarrow> Inner" where
  "step (SearchRequests req) st = searchRequests_handler req st"
| "step (ApiFound data) st = api_page (apiSearch_messagesFounds data) st"
| "step (MigratedFound data) st = api_page (migratedSearch_messagesFounds data) st"
| "step (Clicked Next) st = bar_call next_clicked st"
| "step (Clicked Previous) st = bar_call previous_clicked st"
| "step (ListShowItem x) st = list_showItemRequests_handler x st"
| "step ListSearchMore st = list_searchMoreRequests_handler st"

definition run :: "Event list \<Rightarrow> Inner \<Rightarrow> Inner" where
  "run evs st = fold step evs st"

section \<open>Runs of the merger and of the navigator\<close>

text \<open>A page arrives from the primary or from the migrated search.\<close>

datatype Arrival = Primary FoundMessages | Migrated FoundMessages

fun arrival :: "Arrival \<Rightarrow> ApiSearch \<Rightarrow> ApiSearch \<times> ApiOut list" where
  "arrival (Primary data) s = apiSearch_messagesFounds data s"
| "arrival (Migrated data) s = migratedSearch_messagesFounds data s"

definition arrivals :: "Arrival list \<Rightarrow> ApiSearch \<Rightarrow> ApiSearch" where
  "arrivals as s = fold (\<lambda>a s. fst (arrival a s)) as s"

text \<open>
  The navigator with the total \<open>n\<close>, a position between 1 and \<open>n\<close>, and the two step
  buttons disabled as the position says.
\<close>

definition in_range :: "cint \<Rightarrow> BottomBar \<Rightarrow> bool" where
  "in_range n b \<longleftrightarrow>
     total_bar b = n \<and> 1 \<le>s current b \<and> current b \<le>s n
     \<and> nextDisabled b = (current b \<le>s 0 \<or> n \<le>s current b)
     \<and> prevDisabled b = (current b \<le>s 1)"

section \<open>The pending jump and the loaded messages\<close>

text \<open>The indices that were sent on \<^verbatim>\<open>_pendingJump.jumps\<close>, in order.\<close>

fun jumps_of :: "Effect list \<Rightarrow> cint list" where
  "jumps_of [] = []"
| "jumps_of (JumpsFired i # es) = i # jumps_of es"
| "jumps_of (e # es) = jumps_of es"

text \<open>\<^verbatim>\<open>int(messages.size())\<close> of the loaded messages \<^verbatim>\<open>_apiSearch.messages()\<close>.\<close>

definition loaded :: "Inner \<Rightarrow> cint" where
  "loaded st = of_nat (length (messages (concatedFound (apiSearch st))))"

text \<open>
  No jump is pending (the index is negative, as in the default \<open>-1\<close>, and the filter
  \<^verbatim>\<open>_1 >= 0\<close> drops it), or the index of the pending jump lies beyond the loaded messages.
\<close>

definition pending_beyond_loaded :: "Inner \<Rightarrow> bool" where
  "pending_beyond_loaded st \<longleftrightarrow>
     index (pendingJump st) <s 0 \<or> loaded st \<le>s index (pendingJump st)"

text \<open>
  An accumulator with the empty token is the cleared one: its total is unknown, and when
  the merger does not wait for a total it holds no message and a migrated search is not
  marked full.
\<close>

definition cleared_token :: "ApiSearch \<Rightarrow> bool" where
  "cleared_token a \<longleftrightarrow>
     (nextToken (concatedFound a) = [] \<longrightarrow>
        total_found (concatedFound a) = - 1
        \<and> (\<not> waitingForTotal a \<longrightarrow>
             messages (concatedFound a) = [] \<and> (migratedSearch a \<longrightarrow> \<not> isFull a)))"

text \<open>A pending jump waits on the token of the accumulator, unless the accumulator is cleared.\<close>

definition pending_token :: "Inner \<Rightarrow> bool" where
  "pending_token st \<longleftrightarrow>
     index (pendingJump st) <s 0
     \<or> token (pendingJump st) = nextToken (concatedFound (apiSearch st))
     \<or> nextToken (concatedFound (apiSearch st)) = []"

definition pending_inv :: "Inner \<Rightarrow> bool" where
  "pending_inv st \<longleftrightarrow>
     cleared_token (apiSearch st)
     \<and> (\<not> waitingForTotal (apiSearch st) \<longrightarrow> pending_beyond_loaded st \<and> pending_token st)"

section \<open>Properties of the merger\<close>

lemma fold_push_back:
  "fold push_back xs s =
     s\<lparr>concatedFound := (concatedFound s)\<lparr>messages := messages (concatedFound s) @ xs\<rparr>\<rparr>"
  by (induction xs arbitrary: s) (simp_all add: push_back_def)

lemma addFound_eq:
  "addFound data s =
     s\<lparr>concatedFound := (concatedFound s)\<lparr>messages := messages (concatedFound s) @ messages data\<rparr>\<rparr>"
  by (simp add: addFound_def fold_push_back)

lemma not_sle_minus_one: "\<not> (0 :: cint) \<le>s - 1"
  by (simp add: word_sle_eq)

text \<open>
  Two totals that are known and whose sum fits into 32 bits: the sum the code computes is
  the sum of the integers.
\<close>

lemma sint_sum_of_totals:
  fixes a b :: cint
  assumes "0 \<le>s a" "0 \<le>s b" "sint a + sint b < 2 ^ 31"
  shows "sint (a + b) = sint a + sint b"
proof -
  from assms(1,2) have "0 \<le> sint a" "0 \<le> sint b"
    by (simp_all add: word_sle_eq)
  with assms(3) show ?thesis
    by (simp add: sint_word_ariths signed_take_bit_int_eq_self)
qed

text \<open>
  C1. After a new search (\<^verbatim>\<open>clear\<close>, then \<^verbatim>\<open>search\<close>) the first page of the primary search
  and the first page of the migrated search arrive as search results: their tokens differ
  from the token of the cleared accumulator, which is empty. When both report a known total
  (\<open>Tp \<ge> 0\<close>, \<open>Tm \<ge> 0\<close>), the combined total is \<open>Tp + Tm\<close> in either order of arrival, the
  first arrival fires nothing and the second fires new-results-available. Without a
  migrated search the combined total is \<open>Tp\<close> and new-results-available fires as soon as
  the primary page has arrived. The sum is the one of the C++ \<^verbatim>\<open>int\<close>;
  \<open>sint_sum_of_totals\<close> reads it as the sum of the integers.
\<close>

theorem total_correctness:
  "(migratedSearch s \<and> nextToken p \<noteq> [] \<and> nextToken m \<noteq> []
      \<and> 0 \<le>s total_found p \<and> 0 \<le>s total_found m \<longrightarrow>
      (let s0 = fst (search req (clear s));
           r1 = apiSearch_messagesFounds p s0;
           r2 = migratedSearch_messagesFounds m (fst r1)
       in snd r1 = [] \<and> snd r2 = [NewFounds] \<and> \<not> waitingForTotal (fst r2)
          \<and> total_found (concatedFound (fst r2)) = total_found p + total_found m)
    \<and> (let s0 = fst (search req (clear s));
           r1 = migratedSearch_messagesFounds m s0;
           r2 = apiSearch_messagesFounds p (fst r1)
       in snd r1 = [] \<and> snd r2 = [NewFounds] \<and> \<not> waitingForTotal (fst r2)
          \<and> total_found (concatedFound (fst r2)) = total_found p + total_found m))
   \<and> (\<not> migratedSearch s \<and> \<not> waitingForTotal s \<and> nextToken p \<noteq> [] \<longrightarrow>
      (let s0 = fst (search req (clear s));
           r1 = apiSearch_messagesFounds p s0
       in snd r1 = [NewFounds] \<and> total_found (concatedFound (fst r1)) = total_found p))"
  by (simp add: search_def clear_def FoundMessages_default_def apiSearch_messagesFounds_def
      migratedSearch_messagesFounds_def checkFull_def checkWaitingForTotal_def addFound_eq Let_def
      not_sle_minus_one)

text \<open>
  The run of scenario B (the migrated page first, then the empty primary page), and the
  run of scenario A without a migrated search.
\<close>

theorem total_correctness_witness:
  "total_found (concatedFound (fst (apiSearch_messagesFounds
       \<lparr>total_found = 0, messages = [], nextToken = ''t1''\<rparr>
       (fst (migratedSearch_messagesFounds
          \<lparr>total_found = 1, messages = [FullMsgId 2 9], nextToken = ''t1''\<rparr>
          (fst (search \<lparr>query = ''a'', from_peer = None\<rparr> (clear (ApiSearch_init True)))))))))
     = 1
   \<and> total_found (concatedFound (fst (apiSearch_messagesFounds
       \<lparr>total_found = 3, messages = [FullMsgId 1 1, FullMsgId 1 2, FullMsgId 1 3],
        nextToken = ''t1''\<rparr>
       (fst (search \<lparr>query = ''alice'', from_peer = None\<rparr> (clear (ApiSearch_init False)))))))
     = 3"
proof -
  have dual: "migratedSearch (ApiSearch_init True)"
    and single: "\<not> migratedSearch (ApiSearch_init False) \<and> \<not> waitingForTotal (ApiSearch_init False)"
    by (simp_all add: ApiSearch_init_def)
  note a = total_correctness [of "ApiSearch_init True"
      "\<lparr>total_found = 0, messages = [], nextToken = ''t1''\<rparr>"
      "\<lparr>total_found = 1, messages = [FullMsgId 2 9], nextToken = ''t1''\<rparr>"
      "\<lparr>query = ''a'', from_peer = None\<rparr>"]
  note b = total_correctness [of "ApiSearch_init False"
      "\<lparr>total_found = 3, messages = [FullMsgId 1 1, FullMsgId 1 2, FullMsgId 1 3],
        nextToken = ''t1''\<rparr>" _ "\<lparr>query = ''alice'', from_peer = None\<rparr>"]
  show ?thesis
    using a b dual single by (simp add: Let_def word_sle_eq)
qed

text \<open>Without a migrated search the merger never waits for a total.\<close>

lemma single_source_never_waits:
  assumes "\<not> migratedSearch s" "\<not> waitingForTotal s"
  shows "\<not> waitingForTotal (fst (arrival a s)) \<and> \<not> migratedSearch (fst (arrival a s))"
    and "\<not> waitingForTotal (fst (search req (clear s))) \<and> \<not> migratedSearch (fst (search req (clear s)))"
    and "\<not> waitingForTotal (fst (searchMore s)) \<and> \<not> migratedSearch (fst (searchMore s))"
proof -
  show "\<not> waitingForTotal (fst (arrival a s)) \<and> \<not> migratedSearch (fst (arrival a s))"
  proof (cases a)
    case (Primary d)
    with assms show ?thesis
      by (simp add: apiSearch_messagesFounds_def checkFull_def checkWaitingForTotal_def addFound_eq)
  next
    case (Migrated d)
    with assms show ?thesis
      by (simp add: migratedSearch_messagesFounds_def)
  qed
  from assms
  show "\<not> waitingForTotal (fst (search req (clear s))) \<and> \<not> migratedSearch (fst (search req (clear s)))"
    by (simp add: search_def clear_def)
  from assms
  show "\<not> waitingForTotal (fst (searchMore s)) \<and> \<not> migratedSearch (fst (searchMore s))"
    by (simp add: searchMore_def)
qed

lemma checkWaitingForTotal_messages:
  "messages (concatedFound (fst (checkWaitingForTotal s))) = messages (concatedFound s)"
  "nextToken (concatedFound (fst (checkWaitingForTotal s))) = nextToken (concatedFound s)"
  by (simp_all add: checkWaitingForTotal_def)

lemma arrival_appends:
  assumes "\<And>d. a = Primary d \<Longrightarrow> nextToken d = nextToken (concatedFound s)"
  shows "nextToken (concatedFound (fst (arrival a s))) = nextToken (concatedFound s)
       \<and> prefix (messages (concatedFound s)) (messages (concatedFound (fst (arrival a s))))"
proof (cases a)
  case (Primary d)
  with assms have "nextToken d = nextToken (concatedFound s)" by simp
  with Primary show ?thesis
    by (simp add: apiSearch_messagesFounds_def checkFull_def addFound_eq)
next
  case (Migrated d)
  then show ?thesis
    by (simp add: migratedSearch_messagesFounds_def Let_def checkWaitingForTotal_messages addFound_eq)
qed

lemma arrivals_appends:
  "(\<And>d. Primary d \<in> set as \<Longrightarrow> nextToken d = nextToken (concatedFound s)) \<Longrightarrow>
   prefix (messages (concatedFound s)) (messages (concatedFound (arrivals as s)))"
proof (induction as arbitrary: s)
  case Nil
  then show ?case by (simp add: arrivals_def)
next
  case (Cons a as)
  have step: "nextToken (concatedFound (fst (arrival a s))) = nextToken (concatedFound s)
       \<and> prefix (messages (concatedFound s)) (messages (concatedFound (fst (arrival a s))))"
    by (rule arrival_appends) (simp add: Cons.prems)
  have "prefix (messages (concatedFound (fst (arrival a s))))
          (messages (concatedFound (arrivals as (fst (arrival a s)))))"
    by (rule Cons.IH) (simp add: step Cons.prems)
  with step show ?case
    by (auto simp: arrivals_def intro: prefix_order.trans)
qed

text \<open>
  C7. Over any sequence of arrivals in which every page of the primary search carries the
  token of the accumulator (a next page), with pages of the migrated search in between,
  the combined sequence only grows at its end: the sequence before is a prefix of the
  sequence after, so its length does not decrease and every entry keeps its position.
\<close>

theorem monotonic_growth:
  assumes "\<forall>d. Primary d \<in> set as \<longrightarrow> nextToken d = nextToken (concatedFound s)"
  shows "prefix (messages (concatedFound s)) (messages (concatedFound (arrivals as s)))
       \<and> length (messages (concatedFound s)) \<le> length (messages (concatedFound (arrivals as s)))
       \<and> (\<forall>i < length (messages (concatedFound s)).
            messages (concatedFound (arrivals as s)) ! i = messages (concatedFound s) ! i)"
proof -
  have p: "prefix (messages (concatedFound s)) (messages (concatedFound (arrivals as s)))"
    by (rule arrivals_appends) (simp add: assms)
  then obtain ys where "messages (concatedFound (arrivals as s)) = messages (concatedFound s) @ ys"
    by (auto simp: prefix_def)
  with p show ?thesis by (simp add: nth_append)
qed

theorem monotonic_growth_witness:
  "prefix [FullMsgId 1 1]
     (messages (concatedFound
        (arrivals [Primary \<lparr>total_found = 2, messages = [FullMsgId 1 2], nextToken = ''t1''\<rparr>,
                   Migrated \<lparr>total_found = 1, messages = [FullMsgId 2 9], nextToken = ''t1''\<rparr>]
           ((ApiSearch_init True)\<lparr>concatedFound :=
               \<lparr>total_found = 2, messages = [FullMsgId 1 1], nextToken = ''t1''\<rparr>\<rparr>))))"
  using monotonic_growth [of
      "[Primary \<lparr>total_found = 2, messages = [FullMsgId 1 2], nextToken = ''t1''\<rparr>,
        Migrated \<lparr>total_found = 1, messages = [FullMsgId 2 9], nextToken = ''t1''\<rparr>]"
      "(ApiSearch_init True)\<lparr>concatedFound :=
         \<lparr>total_found = 2, messages = [FullMsgId 1 1], nextToken = ''t1''\<rparr>\<rparr>"]
  by (simp add: ApiSearch_init_def)

section \<open>Properties of the search request handler\<close>

text \<open>
  C9. A request with an empty query and no sender is dropped by the orchestrator: the
  whole state stays as it is, so nothing accumulated changes and no remote search is
  called.
\<close>

theorem empty_request_suppressed:
  "query req = [] \<Longrightarrow> from_peer req = None \<Longrightarrow> searchRequests_handler req st = st"
  by (simp add: searchRequests_handler_def)

theorem empty_request_suppressed_witness:
  "searchRequests_handler \<lparr>query = [], from_peer = None\<rparr> (Inner_init True) = Inner_init True"
  using empty_request_suppressed [of "\<lparr>query = [], from_peer = None\<rparr>" "Inner_init True"]
  by simp

text \<open>
  C10. A request with an empty query and a sender is a real search: both accumulators are
  cleared and the remote searches are called with the empty query and the sender. The
  handler leaves the state as it is only for the empty query without a sender.
\<close>

theorem from_only_request_searched:
  "(query req = [] \<and> from_peer req = Some p \<longrightarrow>
     (let st' = searchRequests_handler req st
      in concatedFound (apiSearch st') = FoundMessages_default
       \<and> migratedFirstFound (apiSearch st') = FoundMessages_default
       \<and> effects st' = effects st @
           (if migratedSearch (apiSearch st)
            then [Remote (MigratedSearchCall (SearchMessages [] (Some p))),
                  Remote (ApiSearchCall (SearchMessages [] (Some p)))]
            else [Remote (ApiSearchCall (SearchMessages [] (Some p)))])))
   \<and> (searchRequests_handler req st = st \<longleftrightarrow> query req = [] \<and> from_peer req = None)"
proof -
  have "effects (searchRequests_handler req st) \<noteq> effects st"
    if "\<not> (query req = [] \<and> from_peer req = None)"
    using that by (simp add: searchRequests_handler_def api_call_def search_def)
  then have "searchRequests_handler req st = st \<longleftrightarrow> query req = [] \<and> from_peer req = None"
    by (auto simp: searchRequests_handler_def)
  then show ?thesis
    by (simp add: searchRequests_handler_def api_call_def search_def clear_def Let_def)
qed

theorem from_only_request_searched_witness:
  "effects (searchRequests_handler \<lparr>query = [], from_peer = Some 7\<rparr> (Inner_init False))
     = [Remote (ApiSearchCall (SearchMessages [] (Some 7)))]
   \<and> searchRequests_handler \<lparr>query = [], from_peer = Some 7\<rparr> (Inner_init False)
     \<noteq> Inner_init False"
  using from_only_request_searched [of "\<lparr>query = [], from_peer = Some 7\<rparr>" 7 "Inner_init False"]
  by (simp add: Inner_init_def ApiSearch_init_def Let_def)

section \<open>Fullness and the migrated messages\<close>

text \<open>
  While fullness is not marked, a page of the migrated search is held and not appended:
  the combined sequence stays as it is, and a page with a new token becomes the held page.
\<close>

lemma held_until_full:
  assumes "\<not> isFull s"
  shows "messages (concatedFound (fst (migratedSearch_messagesFounds d s)))
           = messages (concatedFound s)
       \<and> \<not> isFull (fst (migratedSearch_messagesFounds d s))"
    and "migratedSearch s \<Longrightarrow> nextToken d \<noteq> nextToken (migratedFirstFound s) \<Longrightarrow>
           migratedFirstFound (fst (migratedSearch_messagesFounds d s)) = d"
  using assms
  by (simp_all add: migratedSearch_messagesFounds_def checkWaitingForTotal_def Let_def)

text \<open>
  Fullness is marked only by a page of the primary search whose total equals the number of
  messages accumulated with it.
\<close>

lemma full_only_at_total:
  assumes "\<not> isFull s" "isFull (fst (arrival a s))"
  shows "\<exists>d. a = Primary d
       \<and> total_found d = of_nat (length
            (if nextToken d = nextToken (concatedFound s)
             then messages (concatedFound s) @ messages d else messages d))"
proof (cases a)
  case (Primary d)
  with assms show ?thesis
    by (auto simp: apiSearch_messagesFounds_def checkFull_def checkWaitingForTotal_def
        addFound_eq split: if_splits)
next
  case (Migrated d)
  with assms held_until_full(1) [of s d] show ?thesis by simp
qed

lemma not_full_step:
  assumes "\<not> isFull (fst (arrival a s))"
  shows "\<not> isFull s
       \<and> set (messages (concatedFound (fst (arrival a s))))
          \<subseteq> set (messages (concatedFound s)) \<union> (case a of Primary d \<Rightarrow> set (messages d) | Migrated d \<Rightarrow> {})"
proof (cases a)
  case (Primary d)
  with assms show ?thesis
    by (auto simp: apiSearch_messagesFounds_def checkFull_def checkWaitingForTotal_def
        addFound_eq split: if_splits)
next
  case (Migrated d)
  with assms show ?thesis
    by (auto simp: migratedSearch_messagesFounds_def checkWaitingForTotal_def addFound_eq Let_def
        split: if_splits)
qed

text \<open>
  In a search that starts with fullness not marked, as the first search does, every message
  of the combined sequence comes from a page of the primary search as long as fullness is
  not marked.
\<close>

lemma no_migrated_before_full:
  assumes "\<not> isFull (arrivals as s)"
  shows "set (messages (concatedFound (arrivals as s)))
           \<subseteq> set (messages (concatedFound s)) \<union> (\<Union>d \<in> {d. Primary d \<in> set as}. set (messages d))"
  using assms
proof (induction as rule: rev_induct)
  case Nil
  then show ?case by (simp add: arrivals_def)
next
  case (snoc a as)
  have unfold: "arrivals (as @ [a]) s = fst (arrival a (arrivals as s))"
    by (simp add: arrivals_def)
  from snoc.prems have nf: "\<not> isFull (fst (arrival a (arrivals as s)))"
    by (simp add: unfold)
  note st = not_full_step [OF nf]
  from st have "\<not> isFull (arrivals as s)" by simp
  then have ih: "set (messages (concatedFound (arrivals as s)))
       \<subseteq> set (messages (concatedFound s)) \<union> (\<Union>d \<in> {d. Primary d \<in> set as}. set (messages d))"
    by (rule snoc.IH)
  show ?case
  proof (cases a)
    case (Primary d)
    with st ih show ?thesis unfolding unfold by auto
  next
    case (Migrated d)
    with st ih show ?thesis unfolding unfold by auto
  qed
qed

text \<open>No event resets fullness: \<^verbatim>\<open>_isFull\<close> is only ever assigned \<^verbatim>\<open>true\<close>.\<close>

lemma isFull_arrival: "isFull s \<Longrightarrow> isFull (fst (arrival a s))"
  by (cases a)
    (simp_all add: apiSearch_messagesFounds_def migratedSearch_messagesFounds_def checkFull_def
      checkWaitingForTotal_def addFound_eq Let_def)

lemma isFull_search_clear: "isFull (fst (search req (clear s))) = isFull s"
  by (simp add: search_def clear_def)

text \<open>
  What a new search does reset: both accumulators; it marks the wait for the totals when
  there is a migrated search, and calls the migrated search and then the primary one, or
  only the primary one.
\<close>

lemma search_clear_resets:
  "concatedFound (fst (search req (clear s))) = FoundMessages_default
   \<and> migratedFirstFound (fst (search req (clear s))) = FoundMessages_default
   \<and> (migratedSearch s \<longrightarrow> waitingForTotal (fst (search req (clear s)))
        \<and> snd (search req (clear s))
            = [MigratedSearchCall (SearchMessages (query req) (from_peer req)),
               ApiSearchCall (SearchMessages (query req) (from_peer req))])
   \<and> (\<not> migratedSearch s \<longrightarrow>
        waitingForTotal (fst (search req (clear s))) = waitingForTotal s
        \<and> snd (search req (clear s)) = [ApiSearchCall (SearchMessages (query req) (from_peer req))])"
  by (simp add: search_def clear_def)

text \<open>
  C3, where the code differs. The first search finds nothing in the primary history, which
  marks fullness. After the request for the second search both accumulators are cleared and
  the merger waits for the totals, but fullness is still marked.
\<close>

theorem search_leaves_isFull:
  "isFull (apiSearch (run
      [SearchRequests \<lparr>query = ''a'', from_peer = None\<rparr>,
       ApiFound \<lparr>total_found = 0, messages = [], nextToken = ''a0''\<rparr>,
       MigratedFound \<lparr>total_found = 0, messages = [], nextToken = ''a0''\<rparr>]
      (Inner_init True)))
   \<and> isFull (apiSearch (run
      [SearchRequests \<lparr>query = ''a'', from_peer = None\<rparr>,
       ApiFound \<lparr>total_found = 0, messages = [], nextToken = ''a0''\<rparr>,
       MigratedFound \<lparr>total_found = 0, messages = [], nextToken = ''a0''\<rparr>,
       SearchRequests \<lparr>query = ''b'', from_peer = None\<rparr>]
      (Inner_init True)))
   \<and> concatedFound (apiSearch (run
      [SearchRequests \<lparr>query = ''a'', from_peer = None\<rparr>,
       ApiFound \<lparr>total_found = 0, messages = [], nextToken = ''a0''\<rparr>,
       MigratedFound \<lparr>total_found = 0, messages = [], nextToken = ''a0''\<rparr>,
       SearchRequests \<lparr>query = ''b'', from_peer = None\<rparr>]
      (Inner_init True))) = FoundMessages_default
   \<and> waitingForTotal (apiSearch (run
      [SearchRequests \<lparr>query = ''a'', from_peer = None\<rparr>,
       ApiFound \<lparr>total_found = 0, messages = [], nextToken = ''a0''\<rparr>,
       MigratedFound \<lparr>total_found = 0, messages = [], nextToken = ''a0''\<rparr>,
       SearchRequests \<lparr>query = ''b'', from_peer = None\<rparr>]
      (Inner_init True)))"
  by code_simp

text \<open>
  C2, where the code differs. The first search marks fullness as above. In the second
  search the primary page brings 1 message of 5, so the primary search is not exhausted,
  and the page of the migrated search that arrives next is appended at once: the message
  \<open>FullMsgId 2 9\<close> of the migrated history stands in the combined sequence after 1 of 5
  primary messages, and \<^verbatim>\<open>searchMore\<close> asks the migrated search, not the primary one.
\<close>

theorem migrated_before_primary_exhausted:
  "messages (concatedFound (apiSearch (run
      [SearchRequests \<lparr>query = ''a'', from_peer = None\<rparr>,
       ApiFound \<lparr>total_found = 0, messages = [], nextToken = ''a0''\<rparr>,
       MigratedFound \<lparr>total_found = 0, messages = [], nextToken = ''a0''\<rparr>,
       SearchRequests \<lparr>query = ''b'', from_peer = None\<rparr>,
       ApiFound \<lparr>total_found = 5, messages = [FullMsgId 1 1], nextToken = ''b0''\<rparr>,
       MigratedFound \<lparr>total_found = 1, messages = [FullMsgId 2 9], nextToken = ''b0''\<rparr>]
      (Inner_init True)))) = [FullMsgId 1 1, FullMsgId 2 9]
   \<and> snd (searchMore (apiSearch (run
      [SearchRequests \<lparr>query = ''a'', from_peer = None\<rparr>,
       ApiFound \<lparr>total_found = 0, messages = [], nextToken = ''a0''\<rparr>,
       MigratedFound \<lparr>total_found = 0, messages = [], nextToken = ''a0''\<rparr>,
       SearchRequests \<lparr>query = ''b'', from_peer = None\<rparr>,
       ApiFound \<lparr>total_found = 5, messages = [FullMsgId 1 1], nextToken = ''b0''\<rparr>,
       MigratedFound \<lparr>total_found = 1, messages = [FullMsgId 2 9], nextToken = ''b0''\<rparr>]
      (Inner_init True)))) = [MigratedSearchCall SearchMore]"
  by code_simp

section \<open>Properties of the navigator\<close>

lemma sint_succ:
  fixes c n :: cint
  assumes "c <s n"
  shows "sint (c + 1) = sint c + 1"
proof -
  have "sint c < sint n" using assms by (simp add: word_sless_alt)
  moreover have "sint n < 2 ^ 31" using sint_lt [of n] by simp
  moreover have "- (2 ^ 31) \<le> sint c" using sint_ge [of c] by simp
  ultimately show ?thesis
    by (simp add: sint_word_ariths signed_take_bit_int_eq_self)
qed

lemma sint_pred:
  fixes c n :: cint
  assumes "n <s c"
  shows "sint (c - 1) = sint c - 1"
proof -
  have "sint n < sint c" using assms by (simp add: word_sless_alt)
  moreover have "sint c < 2 ^ 31" using sint_lt [of c] by simp
  moreover have "- (2 ^ 31) \<le> sint n" using sint_ge [of n] by simp
  ultimately show ?thesis
    by (simp add: sint_word_ariths signed_take_bit_int_eq_self)
qed

lemma total_bar_updateText [simp]: "total_bar (updateText c b) = total_bar b"
  and current_updateText [simp]: "current (updateText c b) = current b"
  and nextDisabled_updateText [simp]: "nextDisabled (updateText c b) = nextDisabled b"
  and prevDisabled_updateText [simp]: "prevDisabled (updateText c b) = prevDisabled b"
  by (simp_all add: updateText_def)

lemma in_range_setTotal: "0 <s n \<Longrightarrow> in_range n (fst (setTotal n b))"
  by (simp add: in_range_def setTotal_def setCurrent_def force_assign_def current_value_def
      Let_def word_sle_eq word_sless_alt)

lemma in_range_click: "in_range n b \<Longrightarrow> in_range n (click c b)"
proof (cases c)
  case Next
  assume inv: "in_range n b"
  show ?thesis
  proof (cases "nextDisabled b")
    case True
    with inv Next show ?thesis by (simp add: next_clicked_def)
  next
    case False
    with inv have lt: "current b <s n" and pos: "1 \<le>s current b"
      by (auto simp: in_range_def word_sle_eq word_sless_alt)
    have s: "sint (current b + 1) = sint (current b) + 1" by (rule sint_succ [OF lt])
    from lt pos have "1 \<le>s current b + 1" "current b + 1 \<le>s n"
      by (simp_all add: word_sle_eq word_sless_alt s)
    with inv False Next show ?thesis
      by (simp add: next_clicked_def way_clicked_def assign_def force_assign_def
          current_value_def Let_def in_range_def word_sle_eq s)
  qed
next
  case Previous
  assume inv: "in_range n b"
  show ?thesis
  proof (cases "prevDisabled b")
    case True
    with inv Previous show ?thesis by (simp add: previous_clicked_def)
  next
    case False
    with inv have gt: "1 <s current b" and le: "current b \<le>s n"
      by (auto simp: in_range_def word_sle_eq word_sless_alt)
    have s: "sint (current b - 1) = sint (current b) - 1" by (rule sint_pred [OF gt])
    from gt le have "1 \<le>s current b - 1" "current b - 1 \<le>s n"
      by (simp_all add: word_sle_eq word_sless_alt s)
    with inv False Previous show ?thesis
      by (simp add: previous_clicked_def way_clicked_def assign_def force_assign_def
          current_value_def Let_def in_range_def word_sle_eq s)
  qed
qed

lemma in_range_clicks: "in_range n b \<Longrightarrow> in_range n (fold click cs b)"
  by (induction cs arbitrary: b) (simp_all add: in_range_click)

lemma clicks_total_zero:
  "fold click cs (fst (setTotal 0 b)) = fst (setTotal 0 b)"
proof (induction cs)
  case Nil
  show ?case by simp
next
  case (Cons c cs)
  have "click c (fst (setTotal 0 b)) = fst (setTotal 0 b)"
    by (cases c) (simp_all add: next_clicked_def previous_clicked_def setTotal_def
        setCurrent_def force_assign_def current_value_def Let_def word_sle_eq)
  with Cons show ?case by simp
qed

text \<open>
  C4, as the code has it. \<^verbatim>\<open>setTotal\<close> selects the position 1 for every total. For a total
  \<open>n \<ge> 1\<close> and any sequence of clicks on the two step buttons after it, the position stays
  between 1 and the total, stepping forward does nothing at the total and stepping back does
  nothing at 1. For the total 0 the position is 1 and stays 1: both buttons are disabled.
\<close>

theorem navigation_bounds:
  "(0 <s n \<longrightarrow>
      (let b' = fold click cs (fst (setTotal n b))
       in total_bar b' = n \<and> 1 \<le>s current b' \<and> current b' \<le>s total_bar b'
        \<and> (current b' = total_bar b' \<longrightarrow> next_clicked b' = (b', []))
        \<and> (current b' \<le>s 1 \<longrightarrow> previous_clicked b' = (b', []))))
   \<and> (let b' = fold click cs (fst (setTotal 0 b))
      in total_bar b' = 0 \<and> current b' = 1
        \<and> next_clicked b' = (b', []) \<and> previous_clicked b' = (b', []))"
proof -
  have A: "total_bar b' = n \<and> 1 \<le>s current b' \<and> current b' \<le>s total_bar b'
        \<and> (current b' = total_bar b' \<longrightarrow> next_clicked b' = (b', []))
        \<and> (current b' \<le>s 1 \<longrightarrow> previous_clicked b' = (b', []))"
    if "0 <s n" and b': "b' = fold click cs (fst (setTotal n b))" for b'
  proof -
    have "in_range n b'" unfolding b' by (rule in_range_clicks [OF in_range_setTotal [OF that(1)]])
    then show ?thesis
      by (auto simp: in_range_def next_clicked_def previous_clicked_def)
  qed
  have B: "total_bar b' = 0 \<and> current b' = 1
        \<and> next_clicked b' = (b', []) \<and> previous_clicked b' = (b', [])"
    if b': "b' = fold click cs (fst (setTotal 0 b))" for b'
    unfolding b' clicks_total_zero
    by (simp add: next_clicked_def previous_clicked_def setTotal_def
        setCurrent_def force_assign_def current_value_def Let_def word_sle_eq)
  from A [OF _ refl] B [OF refl] show ?thesis unfolding Let_def by blast
qed

text \<open>
  Total 2: after one step forward the position is 2 and a further step forward does
  nothing; right after \<^verbatim>\<open>setTotal\<close> the position is 1 and a step back does nothing.
\<close>

theorem navigation_bounds_witness:
  "current (fold click [Next] (fst (setTotal 2 BottomBar_init))) = 2
   \<and> next_clicked (fold click [Next] (fst (setTotal 2 BottomBar_init)))
       = (fold click [Next] (fst (setTotal 2 BottomBar_init)), [])
   \<and> current (fold click [] (fst (setTotal 2 BottomBar_init))) = 1
   \<and> previous_clicked (fold click [] (fst (setTotal 2 BottomBar_init)))
       = (fold click [] (fst (setTotal 2 BottomBar_init)), [])"
proof -
  have pos: "(0 :: cint) <s 2" by (simp add: word_sless_alt)
  have c1: "current (fold click [Next] (fst (setTotal 2 BottomBar_init))) = 2"
    by (simp add: next_clicked_def way_clicked_def assign_def setTotal_def setCurrent_def
        force_assign_def current_value_def Let_def word_sle_eq BottomBar_init_def)
  have c2: "current (fold click [] (fst (setTotal 2 BottomBar_init))) = 1"
    by (simp add: setTotal_def setCurrent_def force_assign_def current_value_def Let_def)
  have t: "total_bar (fold click [Next] (fst (setTotal 2 BottomBar_init))) = 2"
    using navigation_bounds [of 2 "[Next]" BottomBar_init] pos by (simp add: Let_def)
  from navigation_bounds [of 2 "[Next]" BottomBar_init] pos c1 t
  have n: "next_clicked (fold click [Next] (fst (setTotal 2 BottomBar_init)))
       = (fold click [Next] (fst (setTotal 2 BottomBar_init)), [])"
    unfolding Let_def by metis
  have "current (fold click [] (fst (setTotal 2 BottomBar_init))) \<le>s 1"
    unfolding c2 by (simp add: word_sle_eq)
  with navigation_bounds [of 2 "[]" BottomBar_init] pos
  have p: "previous_clicked (fold click [] (fst (setTotal 2 BottomBar_init)))
       = (fold click [] (fst (setTotal 2 BottomBar_init)), [])"
    unfolding Let_def by metis
  from c1 c2 n p show ?thesis by simp
qed

text \<open>
  \<^verbatim>\<open>setTotal(0)\<close> selects the position 1, not 0: the position then exceeds the total.
\<close>

theorem setTotal_zero_selects_one:
  "current (fst (setTotal 0 BottomBar_init)) = 1
   \<and> total_bar (fst (setTotal 0 BottomBar_init)) = 0
   \<and> \<not> current (fst (setTotal 0 BottomBar_init)) \<le>s total_bar (fst (setTotal 0 BottomBar_init))"
  by (simp add: setTotal_def setCurrent_def force_assign_def current_value_def Let_def
      BottomBar_init_def word_sle_eq)

section \<open>Properties of the query input\<close>

lemma check_cached_hit:
  "\<lparr>query = select_query t, from_peer = from_value t\<rparr> \<in> set rs \<Longrightarrow>
   check_cached rs t = requestSearch False t"
  by (induction rs) auto

lemma check_cached_miss:
  "\<lparr>query = select_query t, from_peer = from_value t\<rparr> \<notin> set rs \<Longrightarrow>
   check_cached rs t = (t\<lparr>searchTimer := True\<rparr>, [])"
  by (induction rs) auto

text \<open>
  C8. Submitting the query, or the timer running out, fires the request and appends the
  pair of query and sender to the cache. When the query changes to \<open>q\<close> and the pair of
  \<open>q\<close> and the sender is in the cache, the request is fired at once, the timer is left as
  it was and the cache is not extended. When the pair is not in the cache, nothing is
  fired: the timer is started, and the request is fired when the timer runs out or the
  query is submitted.
\<close>

theorem debounce_cache:
  "(\<lparr>query = q, from_peer = from_value t\<rparr> \<in> set (typedRequests t) \<longrightarrow>
      queryChanged q t = (t\<lparr>select_query := q\<rparr>, [\<lparr>query = q, from_peer = from_value t\<rparr>]))
   \<and> (\<lparr>query = q, from_peer = from_value t\<rparr> \<notin> set (typedRequests t) \<longrightarrow>
      queryChanged q t = (t\<lparr>select_query := q, searchTimer := True\<rparr>, [])
      \<and> snd (searchTimer_timeout (fst (queryChanged q t)))
          = [\<lparr>query = q, from_peer = from_value t\<rparr>]
      \<and> snd (submitted (fst (queryChanged q t))) = [\<lparr>query = q, from_peer = from_value t\<rparr>])
   \<and> submitted t
       = (t\<lparr>typedRequests := typedRequests t @ [\<lparr>query = select_query t, from_peer = from_value t\<rparr>]\<rparr>,
          [\<lparr>query = select_query t, from_peer = from_value t\<rparr>])
   \<and> (searchTimer t \<longrightarrow> searchTimer_timeout t
       = (t\<lparr>searchTimer := False,
             typedRequests := typedRequests t @ [\<lparr>query = select_query t, from_peer = from_value t\<rparr>]\<rparr>,
          [\<lparr>query = select_query t, from_peer = from_value t\<rparr>]))
   \<and> queryChanged (select_query t) (fst (submitted t))
       = (fst (submitted t), [\<lparr>query = select_query t, from_peer = from_value t\<rparr>])"
proof -
  have hit: "queryChanged q t = (t\<lparr>select_query := q\<rparr>, [\<lparr>query = q, from_peer = from_value t\<rparr>])"
    if "\<lparr>query = q, from_peer = from_value t\<rparr> \<in> set (typedRequests t)"
    using that check_cached_hit [of "t\<lparr>select_query := q\<rparr>" "typedRequests t"]
    by (simp add: queryChanged_def requestSearchDelayed_def requestSearch_def Let_def)
  have miss: "queryChanged q t = (t\<lparr>select_query := q, searchTimer := True\<rparr>, [])"
    if "\<lparr>query = q, from_peer = from_value t\<rparr> \<notin> set (typedRequests t)"
    using that check_cached_miss [of "t\<lparr>select_query := q\<rparr>" "typedRequests t"]
    by (simp add: queryChanged_def requestSearchDelayed_def)
  have again: "queryChanged (select_query t) (fst (submitted t))
       = (fst (submitted t), [\<lparr>query = select_query t, from_peer = from_value t\<rparr>])"
    using check_cached_hit [of "fst (submitted t)" "typedRequests (fst (submitted t))"]
    by (simp add: queryChanged_def requestSearchDelayed_def requestSearch_def submitted_def Let_def)
  from hit miss again show ?thesis
    by (auto simp: submitted_def searchTimer_timeout_def requestSearch_def Let_def)
qed

text \<open>
  The query \<open>''ab''\<close> is typed (not cached: the timer starts), the timer runs out (fired and
  cached), and \<open>''ab''\<close> is typed again: fired at once, the cache still has one entry.
\<close>

theorem debounce_cache_witness:
  "snd (queryChanged ''ab'' TopBar_init) = []
   \<and> searchTimer (fst (queryChanged ''ab'' TopBar_init))
   \<and> snd (searchTimer_timeout (fst (queryChanged ''ab'' TopBar_init)))
       = [\<lparr>query = ''ab'', from_peer = None\<rparr>]
   \<and> queryChanged ''ab'' (fst (searchTimer_timeout (fst (queryChanged ''ab'' TopBar_init))))
       = (\<lparr>select_query = ''ab'', from_value = None, searchTimer = False,
           typedRequests = [\<lparr>query = ''ab'', from_peer = None\<rparr>]\<rparr>,
          [\<lparr>query = ''ab'', from_peer = None\<rparr>])"
proof -
  have m: "\<lparr>query = ''ab'', from_peer = from_value TopBar_init\<rparr> \<notin> set (typedRequests TopBar_init)"
    by (simp add: TopBar_init_def)
  have q1: "queryChanged ''ab'' TopBar_init
      = (\<lparr>select_query = ''ab'', from_value = None, searchTimer = True, typedRequests = []\<rparr>, [])"
    using debounce_cache [of "''ab''" TopBar_init] m by (simp add: TopBar_init_def)
  have t1: "searchTimer_timeout \<lparr>select_query = ''ab'', from_value = None, searchTimer = True,
        typedRequests = []\<rparr>
      = (\<lparr>select_query = ''ab'', from_value = None, searchTimer = False,
           typedRequests = [\<lparr>query = ''ab'', from_peer = None\<rparr>]\<rparr>,
         [\<lparr>query = ''ab'', from_peer = None\<rparr>])"
    using debounce_cache [of "''ab''" "\<lparr>select_query = ''ab'', from_value = None,
        searchTimer = True, typedRequests = []\<rparr>"]
    by simp
  have q2: "queryChanged ''ab'' \<lparr>select_query = ''ab'', from_value = None, searchTimer = False,
           typedRequests = [\<lparr>query = ''ab'', from_peer = None\<rparr>]\<rparr>
      = (\<lparr>select_query = ''ab'', from_value = None, searchTimer = False,
           typedRequests = [\<lparr>query = ''ab'', from_peer = None\<rparr>]\<rparr>,
          [\<lparr>query = ''ab'', from_peer = None\<rparr>])"
    using debounce_cache [of "''ab''" "\<lparr>select_query = ''ab'', from_value = None,
        searchTimer = False, typedRequests = [\<lparr>query = ''ab'', from_peer = None\<rparr>]\<rparr>"]
    by simp
  show ?thesis by (simp add: q1 t1 q2)
qed

section \<open>Properties of the orchestrator\<close>


lemma jumps_of_Remote: "jumps_of (map Remote outs) = []"
  by (induction outs) simp_all

lemma apiSearch_api_call_searchMore: "apiSearch (api_call searchMore st) = apiSearch st"
  and pendingJump_api_call: "pendingJump (api_call f st) = pendingJump st"
  and bottomBar_api_call: "bottomBar (api_call f st) = bottomBar st"
  and effects_api_call_searchMore:
    "effects (api_call searchMore st) = effects st @
       [Remote (if migratedSearch (apiSearch st) \<and> isFull (apiSearch st)
                then MigratedSearchCall SearchMore else ApiSearchCall SearchMore)]"
  by (simp_all add: api_call_def searchMore_def Let_def)

lemma apiSearch_showItem: "apiSearch (showItem i st) = apiSearch st"
  by (simp add: showItem_def Let_def apiSearch_api_call_searchMore)

lemma bottomBar_showItem: "bottomBar (showItem i st) = bottomBar st"
  by (simp add: showItem_def Let_def bottomBar_api_call)

lemma pendingJump_showItem:
  "pendingJump (showItem i st) =
     (if loaded st \<le>s i \<or> i <s 0
      then \<lparr>token = nextToken (concatedFound (apiSearch st)), index = i\<rparr>
      else PendingJump_default)"
  by (simp add: showItem_def Let_def loaded_def)





section \<open>The lifetime of the pending jump\<close>

lemma sle_or_sless: "(a :: cint) \<le>s b \<or> b <s a"
  by (auto simp: word_sle_eq word_sless_alt)

lemma minus_one_sless: "(- 1 :: cint) <s 0"
  by (simp add: word_sless_alt)

text \<open>After the navigation handler\<close>

lemma pending_after_showItem:
  "pending_beyond_loaded (showItem i st) \<and> pending_token (showItem i st)"
  by (simp add: pending_beyond_loaded_def pending_token_def pendingJump_showItem loaded_def
      apiSearch_showItem PendingJump_default_def minus_one_sless)

lemma pending_inv_showItem:
  "cleared_token (apiSearch st) \<Longrightarrow> pending_inv (showItem i st)"
  by (simp add: pending_inv_def pending_after_showItem apiSearch_showItem)

lemma apiSearch_fold_showItem: "apiSearch (fold showItem is st) = apiSearch st"
  by (induction "is" arbitrary: st) (simp_all add: apiSearch_showItem)

lemma pending_inv_fold_showItem:
  "pending_inv st \<Longrightarrow> pending_inv (fold showItem is st)"
proof (induction "is" arbitrary: st)
  case Nil
  then show ?case by simp
next
  case (Cons i "is")
  from Cons.prems have "cleared_token (apiSearch st)" by (simp add: pending_inv_def)
  then have "pending_inv (showItem i st)" by (rule pending_inv_showItem)
  then show ?case by (simp add: Cons.IH)
qed

lemma pending_inv_bottomBar:
  "pending_inv (st\<lparr>bottomBar := b\<rparr>) = pending_inv st"
  and pending_inv_effects: "pending_inv (st\<lparr>effects := es\<rparr>) = pending_inv st"
  by (simp_all add: pending_inv_def pending_beyond_loaded_def pending_token_def loaded_def)

lemma pending_inv_bar_call: "pending_inv st \<Longrightarrow> pending_inv (bar_call f st)"
  by (simp add: bar_call_def Let_def pending_inv_fold_showItem pending_inv_bottomBar)

lemma apiSearch_bar_call: "apiSearch (bar_call f st) = apiSearch st"
  by (simp add: bar_call_def Let_def apiSearch_fold_showItem)

text \<open>new-results-available\<close>

lemma newFounds_handler_eq:
  "newFounds_handler st =
     (showItem 0 (st\<lparr>bottomBar := fst (setTotal (total_found (concatedFound (apiSearch st))) (bottomBar st))\<rparr>))
       \<lparr>effects := effects (showItem 0 (st\<lparr>bottomBar :=
             fst (setTotal (total_found (concatedFound (apiSearch st))) (bottomBar st))\<rparr>))
          @ [AddItems (messages (concatedFound (apiSearch st))) True]\<rparr>"
  by (simp add: newFounds_handler_def bar_call_def setTotal_def setCurrent_def force_assign_def
      Let_def)

lemma pending_inv_newFounds:
  "cleared_token (apiSearch st) \<Longrightarrow> pending_inv (newFounds_handler st)"
  unfolding newFounds_handler_eq pending_inv_effects
  by (rule pending_inv_showItem) simp

lemma apiSearch_newFounds: "apiSearch (newFounds_handler st) = apiSearch st"
  unfolding newFounds_handler_eq by (simp add: apiSearch_showItem)

text \<open>next-page-available\<close>

lemma pending_inv_nextFounds:
  assumes "cleared_token (apiSearch st)"
    and "\<not> waitingForTotal (apiSearch st) \<Longrightarrow> pending_token st"
  shows "pending_inv (nextFounds_handler st)"
proof (cases "token (pendingJump st) = nextToken (concatedFound (apiSearch st))
    \<and> 0 \<le>s index (pendingJump st)")
  case True
  then have "nextFounds_handler st =
      (showItem (index (pendingJump st)) (st\<lparr>effects := effects st @ [JumpsFired (index (pendingJump st))]\<rparr>))
        \<lparr>effects := effects (showItem (index (pendingJump st))
              (st\<lparr>effects := effects st @ [JumpsFired (index (pendingJump st))]\<rparr>))
            @ [AddItems (messages (concatedFound (apiSearch st))) False]\<rparr>"
    by (simp add: nextFounds_handler_def jumps_fire_def Let_def apiSearch_showItem)
  then show ?thesis
    using assms(1) by (simp add: pending_inv_effects pending_inv_showItem)
next
  case False
  then have same: "pendingJump (nextFounds_handler st) = pendingJump st
      \<and> apiSearch (nextFounds_handler st) = apiSearch st"
    by (auto simp: nextFounds_handler_def jumps_fire_def Let_def)
  show ?thesis
  proof (cases "waitingForTotal (apiSearch st)")
    case True
    with same assms(1) show ?thesis by (simp add: pending_inv_def)
  next
    case nw: False
    then have tk: "pending_token st" by (rule assms(2))
    have "pending_beyond_loaded st"
    proof (cases "index (pendingJump st) <s 0")
      case True
      then show ?thesis by (simp add: pending_beyond_loaded_def)
    next
      case neg: False
      then have "0 \<le>s index (pendingJump st)" using sle_or_sless by blast
      with False tk neg have "nextToken (concatedFound (apiSearch st)) = []"
        by (auto simp: pending_token_def)
      with assms(1) nw have "messages (concatedFound (apiSearch st)) = []"
        by (simp add: cleared_token_def)
      with \<open>0 \<le>s index (pendingJump st)\<close> show ?thesis
        by (simp add: pending_beyond_loaded_def loaded_def)
    qed
    with tk same assms(1) show ?thesis
      by (simp add: pending_inv_def pending_beyond_loaded_def pending_token_def loaded_def)
  qed
qed

lemma cleared_token_checkWaitingForTotal:
  "cleared_token s \<Longrightarrow> cleared_token (fst (checkWaitingForTotal s))"
  by (auto simp: cleared_token_def checkWaitingForTotal_def not_sle_minus_one)

lemma checkWaitingForTotal_outs:
  "snd (checkWaitingForTotal s) = [NewFounds]
   \<or> snd (checkWaitingForTotal s) = [] \<and> waitingForTotal (fst (checkWaitingForTotal s))"
  by (simp add: checkWaitingForTotal_def)

lemma pending_inv_waiting:
  "cleared_token (apiSearch st) \<Longrightarrow> waitingForTotal (apiSearch st) \<Longrightarrow> pending_inv st"
  by (simp add: pending_inv_def)

lemma pending_inv_after_check:
  assumes "cleared_token s"
  shows "pending_inv (fold api_out (snd (checkWaitingForTotal s))
           (st\<lparr>apiSearch := fst (checkWaitingForTotal s)\<rparr>))"
proof -
  have c: "cleared_token (fst (checkWaitingForTotal s))"
    by (rule cleared_token_checkWaitingForTotal [OF assms])
  from checkWaitingForTotal_outs [of s] show ?thesis
  proof
    assume "snd (checkWaitingForTotal s) = [NewFounds]"
    with c show ?thesis by (simp add: pending_inv_newFounds)
  next
    assume "snd (checkWaitingForTotal s) = [] \<and> waitingForTotal (fst (checkWaitingForTotal s))"
    with c show ?thesis by (simp add: pending_inv_waiting)
  qed
qed

lemma pending_inv_ApiFound:
  assumes inv: "pending_inv st" and tok: "nextToken d \<noteq> []"
  shows "pending_inv (step (ApiFound d) st)"
proof (cases "nextToken d = nextToken (concatedFound (apiSearch st))")
  case True
  let ?a = "checkFull d (addFound d (apiSearch st))"
  have s: "step (ApiFound d) st = nextFounds_handler (st\<lparr>apiSearch := ?a\<rparr>)"
    using True by (simp add: api_page_def apiSearch_messagesFounds_def)
  have t: "nextToken (concatedFound ?a) = nextToken (concatedFound (apiSearch st))"
    and w: "waitingForTotal ?a = waitingForTotal (apiSearch st)"
    by (simp_all add: checkFull_def addFound_eq)
  from t True tok have c: "cleared_token ?a" by (simp add: cleared_token_def)
  have "pending_token (st\<lparr>apiSearch := ?a\<rparr>)" if "\<not> waitingForTotal ?a"
    using that inv w t by (simp add: pending_inv_def pending_token_def)
  with c show ?thesis unfolding s by (intro pending_inv_nextFounds) simp_all
next
  case False
  let ?a = "checkFull d ((apiSearch st)\<lparr>concatedFound := d\<rparr>)"
  have s: "step (ApiFound d) st
      = fold api_out (snd (checkWaitingForTotal ?a)) (st\<lparr>apiSearch := fst (checkWaitingForTotal ?a)\<rparr>)"
    using False by (simp add: api_page_def apiSearch_messagesFounds_def Let_def)
  have "nextToken (concatedFound ?a) = nextToken d"
    by (simp add: checkFull_def addFound_eq)
  with tok have "cleared_token ?a" by (simp add: cleared_token_def)
  then show ?thesis unfolding s by (rule pending_inv_after_check)
qed

lemma cleared_token_held:
  assumes "cleared_token a" "migratedSearch a"
  shows "cleared_token (if isFull a then addFound d a else a)"
  using assms by (auto simp: cleared_token_def addFound_eq)

lemma pending_inv_MigratedFound:
  assumes inv: "pending_inv st"
  shows "pending_inv (step (MigratedFound d) st)"
proof (cases "migratedSearch (apiSearch st)")
  case False
  then have "step (MigratedFound d) st = st"
    by (simp add: api_page_def migratedSearch_messagesFounds_def)
  with inv show ?thesis by simp
next
  case True
  let ?a = "if isFull (apiSearch st) then addFound d (apiSearch st) else apiSearch st"
  from inv have "cleared_token (apiSearch st)" by (simp add: pending_inv_def)
  then have c: "cleared_token ?a" using True by (rule cleared_token_held)
  have t: "nextToken (concatedFound ?a) = nextToken (concatedFound (apiSearch st))"
    and w: "waitingForTotal ?a = waitingForTotal (apiSearch st)"
    and m: "migratedFirstFound ?a = migratedFirstFound (apiSearch st)"
    by (simp_all add: addFound_eq)
  show ?thesis
  proof (cases "nextToken d = nextToken (migratedFirstFound (apiSearch st))")
    case same: True
    have s: "step (MigratedFound d) st = nextFounds_handler (st\<lparr>apiSearch := ?a\<rparr>)"
      using True same m by (simp add: api_page_def migratedSearch_messagesFounds_def Let_def)
    have "pending_token (st\<lparr>apiSearch := ?a\<rparr>)" if "\<not> waitingForTotal ?a"
      using that inv w t by (simp add: pending_inv_def pending_token_def)
    with c show ?thesis unfolding s by (intro pending_inv_nextFounds) simp_all
  next
    case other: False
    let ?b = "?a\<lparr>migratedFirstFound := d\<rparr>"
    have s: "step (MigratedFound d) st
        = fold api_out (snd (checkWaitingForTotal ?b)) (st\<lparr>apiSearch := fst (checkWaitingForTotal ?b)\<rparr>)"
      using True other m by (simp add: api_page_def migratedSearch_messagesFounds_def Let_def)
    from c have "cleared_token ?b" by (simp add: cleared_token_def)
    then show ?thesis unfolding s by (rule pending_inv_after_check)
  qed
qed

lemma pending_inv_SearchRequests:
  assumes inv: "pending_inv st"
  shows "pending_inv (step (SearchRequests req) st)"
proof (cases "query req = [] \<and> from_peer req = None")
  case True
  with inv show ?thesis by (simp add: searchRequests_handler_def)
next
  case False
  have "0 \<le>s index (pendingJump st) \<or> index (pendingJump st) <s 0"
    by (rule sle_or_sless)
  with False show ?thesis
    by (auto simp: searchRequests_handler_def api_call_def search_def clear_def
        FoundMessages_default_def pending_inv_def cleared_token_def pending_beyond_loaded_def
        pending_token_def loaded_def)
qed

lemma pending_inv_api_call_searchMore:
  "pending_inv st \<Longrightarrow> pending_inv (api_call searchMore st)"
  by (auto simp: api_call_def searchMore_def pending_inv_def cleared_token_def
      pending_beyond_loaded_def pending_token_def loaded_def Let_def)

lemma pending_inv_step:
  assumes "pending_inv st" and "\<And>d. e = ApiFound d \<Longrightarrow> nextToken d \<noteq> []"
  shows "pending_inv (step e st)"
proof (cases e)
  case (SearchRequests req)
  with assms(1) show ?thesis by (simp only: pending_inv_SearchRequests)
next
  case (ApiFound d)
  with assms show ?thesis using pending_inv_ApiFound [of st d] by simp
next
  case (MigratedFound d)
  with assms(1) show ?thesis by (simp only: pending_inv_MigratedFound)
next
  case (Clicked c)
  with assms(1) show ?thesis by (cases c) (simp_all add: pending_inv_bar_call)
next
  case (ListShowItem x)
  with assms(1) show ?thesis
    by (simp add: list_showItemRequests_handler_def pending_inv_bar_call split: option.split)
next
  case ListSearchMore
  with assms(1) show ?thesis
    by (simp add: list_searchMoreRequests_handler_def Let_def pending_inv_api_call_searchMore)
qed

lemma pending_inv_run:
  "pending_inv st \<Longrightarrow> (\<And>d. ApiFound d \<in> set evs \<Longrightarrow> nextToken d \<noteq> []) \<Longrightarrow>
   pending_inv (run evs st)"
proof (induction evs arbitrary: st)
  case Nil
  then show ?case by (simp add: run_def)
next
  case (Cons e evs)
  have "pending_inv (step e st)"
    by (rule pending_inv_step [OF Cons.prems(1)]) (simp add: Cons.prems(2))
  then have "pending_inv (run evs (step e st))"
    by (rule Cons.IH) (simp add: Cons.prems(2))
  then show ?case by (simp add: run_def)
qed

lemma pending_inv_init: "pending_inv (Inner_init h)"
  by (simp add: pending_inv_def Inner_init_def ApiSearch_init_def FoundMessages_default_def
      cleared_token_def pending_beyond_loaded_def pending_token_def PendingJump_default_def
      minus_one_sless)

lemma api_page_NewFounds:
  "snd (f (apiSearch st)) = [NewFounds] \<Longrightarrow>
   api_page f st = newFounds_handler (st\<lparr>apiSearch := fst (f (apiSearch st))\<rparr>)"
  by (simp add: api_page_def Let_def)

lemma pendingJump_newFounds:
  "pendingJump (newFounds_handler st) =
     (if loaded st \<le>s 0
      then \<lparr>token = nextToken (concatedFound (apiSearch st)), index = 0\<rparr>
      else PendingJump_default)"
  unfolding newFounds_handler_eq
  by (simp add: pendingJump_showItem loaded_def word_sless_alt)

lemma pendingJump_announced:
  assumes "snd (f (apiSearch st)) = [NewFounds]"
  shows "pendingJump (api_page f st) =
     (if loaded (api_page f st) \<le>s 0
      then \<lparr>token = nextToken (concatedFound (apiSearch (api_page f st))), index = 0\<rparr>
      else PendingJump_default)"
  unfolding api_page_NewFounds [of f st, OF assms]
  by (simp add: pendingJump_newFounds apiSearch_newFounds loaded_def)

lemma pendingJump_satisfied:
  assumes tok: "token (pendingJump st) = nextToken (concatedFound (apiSearch st))"
    and page: "nextToken d = token (pendingJump st)"
    and pos: "0 \<le>s index (pendingJump st)"
    and within: "index (pendingJump st) <s loaded (step (ApiFound d) st)"
  shows "pendingJump (step (ApiFound d) st) = PendingJump_default"
proof -
  let ?a = "checkFull d (addFound d (apiSearch st))"
  let ?i = "index (pendingJump st)"
  let ?st = "st\<lparr>apiSearch := ?a, effects := effects st @ [JumpsFired ?i]\<rparr>"
  have t: "nextToken (concatedFound ?a) = nextToken (concatedFound (apiSearch st))"
    by (simp add: checkFull_def addFound_eq)
  have s: "step (ApiFound d) st
      = (showItem ?i ?st)\<lparr>effects := effects (showItem ?i ?st)
           @ [AddItems (messages (concatedFound ?a)) False]\<rparr>"
    using tok page pos t
    by (simp add: api_page_def apiSearch_messagesFounds_def nextFounds_handler_def
        jumps_fire_def Let_def apiSearch_showItem)
  have l: "loaded (step (ApiFound d) st) = loaded ?st"
    unfolding s by (simp add: loaded_def apiSearch_showItem)
  from within pos have "\<not> (loaded ?st \<le>s ?i \<or> ?i <s 0)"
    unfolding l by (auto simp: word_sle_eq word_sless_alt)
  then show ?thesis
    unfolding s by (simp add: pendingJump_showItem)
qed

text \<open>
  C5, as the code has it. In every run from the initial state whose primary pages carry a
  token (a non-empty one), whenever the merger is not waiting for the totals, a pending jump
  exists only while its index lies beyond the loaded messages. The navigation handler
  records the jump exactly when the index is beyond the loaded messages (or negative) and
  drops any pending jump otherwise; the next page with the token of the jump drops it when
  the index is loaded by then; and when new results are announced, by a page of either
  search, the pending jump that the state held before is gone: what is left is no jump, or
  the jump to the index 0 with the new token when nothing is loaded.
\<close>

theorem pending_jump_lifetime:
  "((\<forall>d. ApiFound d \<in> set evs \<longrightarrow> nextToken d \<noteq> [])
      \<and> \<not> waitingForTotal (apiSearch (run evs (Inner_init h)))
      \<longrightarrow> pending_beyond_loaded (run evs (Inner_init h)))
   \<and> pendingJump (showItem i st) =
       (if loaded st \<le>s i \<or> i <s 0
        then \<lparr>token = nextToken (concatedFound (apiSearch st)), index = i\<rparr>
        else PendingJump_default)
   \<and> (token (pendingJump st) = nextToken (concatedFound (apiSearch st))
        \<and> nextToken d = token (pendingJump st)
        \<and> 0 \<le>s index (pendingJump st)
        \<and> index (pendingJump st) <s loaded (step (ApiFound d) st)
      \<longrightarrow> pendingJump (step (ApiFound d) st) = PendingJump_default)
   \<and> (snd (apiSearch_messagesFounds d (apiSearch st)) = [NewFounds] \<longrightarrow>
        pendingJump (step (ApiFound d) st) =
          (if loaded (step (ApiFound d) st) \<le>s 0
           then \<lparr>token = nextToken (concatedFound (apiSearch (step (ApiFound d) st))), index = 0\<rparr>
           else PendingJump_default))
   \<and> (snd (migratedSearch_messagesFounds d (apiSearch st)) = [NewFounds] \<longrightarrow>
        pendingJump (step (MigratedFound d) st) =
          (if loaded (step (MigratedFound d) st) \<le>s 0
           then \<lparr>token = nextToken (concatedFound (apiSearch (step (MigratedFound d) st))), index = 0\<rparr>
           else PendingJump_default))"
proof -
  have inv: "pending_beyond_loaded (run evs (Inner_init h))"
    if "\<forall>d. ApiFound d \<in> set evs \<longrightarrow> nextToken d \<noteq> []"
      and "\<not> waitingForTotal (apiSearch (run evs (Inner_init h)))"
  proof -
    have "pending_inv (run evs (Inner_init h))"
      by (rule pending_inv_run [OF pending_inv_init]) (simp add: that(1))
    with that(2) show ?thesis by (simp add: pending_inv_def)
  qed
  have primary: "pendingJump (step (ApiFound d) st) =
          (if loaded (step (ApiFound d) st) \<le>s 0
           then \<lparr>token = nextToken (concatedFound (apiSearch (step (ApiFound d) st))), index = 0\<rparr>
           else PendingJump_default)"
    if "snd (apiSearch_messagesFounds d (apiSearch st)) = [NewFounds]"
    using pendingJump_announced [of "apiSearch_messagesFounds d" st, OF that] by simp
  have migrated: "pendingJump (step (MigratedFound d) st) =
          (if loaded (step (MigratedFound d) st) \<le>s 0
           then \<lparr>token = nextToken (concatedFound (apiSearch (step (MigratedFound d) st))), index = 0\<rparr>
           else PendingJump_default)"
    if "snd (migratedSearch_messagesFounds d (apiSearch st)) = [NewFounds]"
    using pendingJump_announced [of "migratedSearch_messagesFounds d" st, OF that] by simp
  from inv pendingJump_showItem [of i st] pendingJump_satisfied [of st d] primary migrated
  show ?thesis by blast
qed

text \<open>
  Without a migrated search: 3 of 10 messages are loaded, the third is selected and a step
  forward asks for the index 3, which is recorded as the pending jump and lies beyond the
  loaded messages; the next page drops it.
\<close>

theorem pending_jump_lifetime_witness:
  "pendingJump (run
      [SearchRequests \<lparr>query = ''a'', from_peer = None\<rparr>,
       ApiFound \<lparr>total_found = 10, messages = [FullMsgId 1 1, FullMsgId 1 2, FullMsgId 1 3],
                 nextToken = ''t1''\<rparr>,
       ListShowItem (FullMsgId 1 3),
       Clicked Next]
      (Inner_init False)) = \<lparr>token = ''t1'', index = 3\<rparr>
   \<and> pending_beyond_loaded (run
      [SearchRequests \<lparr>query = ''a'', from_peer = None\<rparr>,
       ApiFound \<lparr>total_found = 10, messages = [FullMsgId 1 1, FullMsgId 1 2, FullMsgId 1 3],
                 nextToken = ''t1''\<rparr>,
       ListShowItem (FullMsgId 1 3),
       Clicked Next]
      (Inner_init False))
   \<and> pendingJump (step
      (ApiFound \<lparr>total_found = 10, messages = [FullMsgId 1 4, FullMsgId 1 5, FullMsgId 1 6],
                 nextToken = ''t1''\<rparr>)
      (run
        [SearchRequests \<lparr>query = ''a'', from_peer = None\<rparr>,
         ApiFound \<lparr>total_found = 10, messages = [FullMsgId 1 1, FullMsgId 1 2, FullMsgId 1 3],
                   nextToken = ''t1''\<rparr>,
         ListShowItem (FullMsgId 1 3),
         Clicked Next]
        (Inner_init False))) = PendingJump_default"
proof -
  let ?evs = "[SearchRequests \<lparr>query = ''a'', from_peer = None\<rparr>,
       ApiFound \<lparr>total_found = 10, messages = [FullMsgId 1 1, FullMsgId 1 2, FullMsgId 1 3],
                 nextToken = ''t1''\<rparr>,
       ListShowItem (FullMsgId 1 3),
       Clicked Next]"
  let ?d = "\<lparr>total_found = 10, messages = [FullMsgId 1 4, FullMsgId 1 5, FullMsgId 1 6],
                 nextToken = ''t1''\<rparr>"
  let ?st = "run ?evs (Inner_init False)"
  have tokens: "\<forall>d. ApiFound d \<in> set ?evs \<longrightarrow> nextToken d \<noteq> []"
    by auto
  have ready: "\<not> waitingForTotal (apiSearch ?st)"
    by code_simp
  have recorded: "pendingJump ?st = \<lparr>token = ''t1'', index = 3\<rparr>"
    by code_simp
  have page: "token (pendingJump ?st) = nextToken (concatedFound (apiSearch ?st))
        \<and> nextToken ?d = token (pendingJump ?st)
        \<and> 0 \<le>s index (pendingJump ?st)
        \<and> index (pendingJump ?st) <s loaded (step (ApiFound ?d) ?st)"
    by code_simp
  note r = pending_jump_lifetime [of ?evs False _ ?st ?d]
  from r tokens ready have "pending_beyond_loaded ?st"
    by blast
  moreover from r page have "pendingJump (step (ApiFound ?d) ?st) = PendingJump_default"
    by blast
  ultimately show ?thesis using recorded by blast
qed

text \<open>
  C5, where the code differs. With a migrated search: the jump to the index 1 is recorded
  in the first search. The same query is searched again, and its primary page brings 3
  messages while the merger still waits for the total of the migrated search: the jump of
  the first search is still pending, with its index among the loaded messages. A further
  page with the token then fires that jump on the messages of the second search.
\<close>

theorem stale_pending_jump:
  "pendingJump (run
      [SearchRequests \<lparr>query = ''a'', from_peer = None\<rparr>,
       ApiFound \<lparr>total_found = 3, messages = [FullMsgId 1 1], nextToken = ''a0''\<rparr>,
       MigratedFound \<lparr>total_found = 0, messages = [], nextToken = ''a0''\<rparr>,
       Clicked Next,
       SearchRequests \<lparr>query = ''a'', from_peer = None\<rparr>,
       ApiFound \<lparr>total_found = 5, messages = [FullMsgId 1 4, FullMsgId 1 5, FullMsgId 1 6],
                 nextToken = ''a0''\<rparr>]
      (Inner_init True)) = \<lparr>token = ''a0'', index = 1\<rparr>
   \<and> loaded (run
      [SearchRequests \<lparr>query = ''a'', from_peer = None\<rparr>,
       ApiFound \<lparr>total_found = 3, messages = [FullMsgId 1 1], nextToken = ''a0''\<rparr>,
       MigratedFound \<lparr>total_found = 0, messages = [], nextToken = ''a0''\<rparr>,
       Clicked Next,
       SearchRequests \<lparr>query = ''a'', from_peer = None\<rparr>,
       ApiFound \<lparr>total_found = 5, messages = [FullMsgId 1 4, FullMsgId 1 5, FullMsgId 1 6],
                 nextToken = ''a0''\<rparr>]
      (Inner_init True)) = 3
   \<and> \<not> pending_beyond_loaded (run
      [SearchRequests \<lparr>query = ''a'', from_peer = None\<rparr>,
       ApiFound \<lparr>total_found = 3, messages = [FullMsgId 1 1], nextToken = ''a0''\<rparr>,
       MigratedFound \<lparr>total_found = 0, messages = [], nextToken = ''a0''\<rparr>,
       Clicked Next,
       SearchRequests \<lparr>query = ''a'', from_peer = None\<rparr>,
       ApiFound \<lparr>total_found = 5, messages = [FullMsgId 1 4, FullMsgId 1 5, FullMsgId 1 6],
                 nextToken = ''a0''\<rparr>]
      (Inner_init True))
   \<and> effects (run
      [SearchRequests \<lparr>query = ''a'', from_peer = None\<rparr>,
       ApiFound \<lparr>total_found = 3, messages = [FullMsgId 1 1], nextToken = ''a0''\<rparr>,
       MigratedFound \<lparr>total_found = 0, messages = [], nextToken = ''a0''\<rparr>,
       Clicked Next,
       SearchRequests \<lparr>query = ''a'', from_peer = None\<rparr>,
       ApiFound \<lparr>total_found = 5, messages = [FullMsgId 1 4, FullMsgId 1 5, FullMsgId 1 6],
                 nextToken = ''a0''\<rparr>,
       ApiFound \<lparr>total_found = 5, messages = [FullMsgId 1 7], nextToken = ''a0''\<rparr>]
      (Inner_init True))
     = effects (run
      [SearchRequests \<lparr>query = ''a'', from_peer = None\<rparr>,
       ApiFound \<lparr>total_found = 3, messages = [FullMsgId 1 1], nextToken = ''a0''\<rparr>,
       MigratedFound \<lparr>total_found = 0, messages = [], nextToken = ''a0''\<rparr>,
       Clicked Next,
       SearchRequests \<lparr>query = ''a'', from_peer = None\<rparr>,
       ApiFound \<lparr>total_found = 5, messages = [FullMsgId 1 4, FullMsgId 1 5, FullMsgId 1 6],
                 nextToken = ''a0''\<rparr>]
      (Inner_init True))
       @ [JumpsFired 1, GoToMessage (FullMsgId 1 5), HideList,
          AddItems [FullMsgId 1 4, FullMsgId 1 5, FullMsgId 1 6, FullMsgId 1 7] False]"
  by code_simp

section \<open>The resolution of a pending jump\<close>






end
